theory Spec2Isabelle
  imports Complex_Main "HOL-Library.List_Lexorder" "HOL-Library.AList"
begin

section \<open>Mindex: the entry parser, the sort normaliser, the formatter and the layout resolver\<close>

text \<open>
  A shallow embedding of \<^verbatim>\<open>src/mindex.py\<close>. A Python \<^verbatim>\<open>str\<close> is the list of its code
  points, and strings are compared as Python compares them, code point by code point.
  \<^verbatim>\<open>str.strip\<close> is modelled in full. \<^verbatim>\<open>str.lower\<close>, whose Unicode case tables are not in
  the repository, is a parameter \<open>lower\<close> of the functions that sort, and every statement
  is made for every \<open>lower\<close>. The argument of \<open>readContent\<close> is the decoded text of the
  file, after Python's universal-newline translation. What the program prints is returned
  as a value; the console prompts of \<^verbatim>\<open>readContent\<close> are not modelled.
\<close>

subsection \<open>Python strings\<close>

type_synonym pystr = "nat list"

text \<open>The Python string written with the characters of \<open>s\<close> (code points below 256).\<close>

definition str :: "string \<Rightarrow> pystr" where
  "str s = map of_char s"

abbreviation TAB :: nat where "TAB \<equiv> 9"
abbreviation NL :: nat where "NL \<equiv> 10"
abbreviation HASH :: nat where "HASH \<equiv> 35"

text \<open>
  \<^verbatim>\<open>str.isspace\<close> of one character, the test \<^verbatim>\<open>str.strip\<close> makes: U+0009 to U+000D,
  U+001C to U+0020, U+0085, U+00A0, U+1680, U+2000 to U+200A, U+2028, U+2029, U+202F,
  U+205F and U+3000.
\<close>

definition is_space :: "nat \<Rightarrow> bool" where
  "is_space c \<longleftrightarrow>
     (9 \<le> c \<and> c \<le> 13) \<or> (28 \<le> c \<and> c \<le> 32) \<or> c = 133 \<or> c = 160 \<or> c = 5760 \<or>
     (8192 \<le> c \<and> c \<le> 8202) \<or> c = 8232 \<or> c = 8233 \<or> c = 8239 \<or> c = 8287 \<or> c = 12288"

text \<open>\<^verbatim>\<open>s.strip()\<close>: whitespace removed at both ends.\<close>

definition strip :: "pystr \<Rightarrow> pystr" where
  "strip s = rev (dropWhile is_space (rev (dropWhile is_space s)))"

text \<open>
  \<^verbatim>\<open>s.split(sep)\<close> with a one-character separator: one more field than there are
  separators, empty fields kept.
\<close>

fun split_on :: "nat \<Rightarrow> pystr \<Rightarrow> pystr list" where
  "split_on sep [] = [[]]"
| "split_on sep (c # cs) =
     (if c = sep then [] # split_on sep cs
      else (case split_on sep cs of [] \<Rightarrow> [[c]] | f # fs \<Rightarrow> (c # f) # fs))"

text \<open>
  Iterating over a text file: each line with its terminating newline, the last one
  without when the file does not end in a newline. No line is the empty string.
\<close>

fun file_lines :: "pystr \<Rightarrow> pystr list" where
  "file_lines [] = []"
| "file_lines (c # cs) =
     (if c = NL then [NL] # file_lines cs
      else (case file_lines cs of [] \<Rightarrow> [[c]] | l # ls \<Rightarrow> (c # l) # ls))"

subsection \<open>readContent\<close>

datatype py_error = IndexError | ValueError | OverflowError

type_synonym entry = "pystr \<times> pystr"

text \<open>
  The three locals of \<^verbatim>\<open>readContent\<close>. An element of \<open>data\<close> is the two-element list
  \<^verbatim>\<open>[first, pageRef]\<close>, a pair here. \<open>sortDict\<close> is the dict in insertion order;
  \<^verbatim>\<open>sortDict[k] = v\<close> is \<^const>\<open>AList.update\<close>, and a lookup is \<^const>\<open>map_of\<close>.
\<close>

record parse_state =
  data :: "entry list"
  errors :: "pystr list list"
  sortDict :: "(pystr \<times> pystr) list"

definition init_state :: parse_state where
  "init_state = \<lparr>data = [], errors = [], sortDict = []\<rparr>"

text \<open>
  One iteration of the \<^verbatim>\<open>for entry in f\<close> loop (lines 110 to 130). \<^verbatim>\<open>entry[0]\<close>
  raises IndexError on the empty string.
\<close>

definition read_line :: "parse_state \<Rightarrow> pystr \<Rightarrow> py_error + parse_state" where
  "read_line st entry =
     (if entry = [] then Inl IndexError
      else if hd entry = HASH then Inr st
      else if entry = [NL] then Inr st
      else
        let fields = split_on TAB entry in
        if length fields = 3 \<and> strip (fields ! 2) \<noteq> [] then
          Inr (st\<lparr>sortDict := AList.update (strip (fields ! 2)) (strip (fields ! 0)) (sortDict st),
                  data := data st @ [(strip (fields ! 2), strip (fields ! 1))]\<rparr>)
        else if (length fields = 3 \<and> strip (fields ! 2) = []) \<or> length fields = 2 then
          Inr (st\<lparr>data := data st @ [(strip (fields ! 0), strip (fields ! 1))]\<rparr>)
        else
          Inr (st\<lparr>errors := errors st @ [fields]\<rparr>))"

fun read_lines :: "parse_state \<Rightarrow> pystr list \<Rightarrow> py_error + parse_state" where
  "read_lines st [] = Inr st"
| "read_lines st (entry # rest) =
     (case read_line st entry of Inl e \<Rightarrow> Inl e | Inr st' \<Rightarrow> read_lines st' rest)"

text \<open>
  Line 134: \<^verbatim>\<open>data.sort(key=lambda x: x[0].lower())\<close>, Python's stable sort by key, the
  keys compared as strings.
\<close>

definition sort_data :: "(pystr \<Rightarrow> pystr) \<Rightarrow> entry list \<Rightarrow> entry list" where
  "sort_data lower d = sort_key (\<lambda>x. lower (fst x)) d"

text \<open>Lines 136 and 137, for one element of the sorted list.\<close>

definition substitute :: "(pystr \<times> pystr) list \<Rightarrow> entry \<Rightarrow> entry" where
  "substitute sd i = (case map_of sd (fst i) of Some d \<Rightarrow> (d, snd i) | None \<Rightarrow> i)"

text \<open>
  The body of \<^verbatim>\<open>readContent\<close> on the lines of the file: the returned \<open>data\<close>, and the
  \<open>errors\<close> that are printed.
\<close>

definition read_entries ::
  "(pystr \<Rightarrow> pystr) \<Rightarrow> pystr list \<Rightarrow> py_error + (entry list \<times> pystr list list)" where
  "read_entries lower ls =
     (case read_lines init_state ls of
        Inl e \<Rightarrow> Inl e
      | Inr st \<Rightarrow> Inr (map (substitute (sortDict st)) (sort_data lower (data st)), errors st))"

definition readContent ::
  "(pystr \<Rightarrow> pystr) \<Rightarrow> pystr \<Rightarrow> py_error + (entry list \<times> pystr list list)" where
  "readContent lower content = read_entries lower (file_lines content)"

subsection \<open>formatIndex\<close>

text \<open>\<^verbatim>\<open>"\\item ~%s, %s" % (i[0], i[1])\<close>\<close>

definition item :: "entry \<Rightarrow> pystr" where
  "item i = str (CHR 0x5C # ''item ~'') @ fst i @ str '', '' @ snd i"

fun formatIndex_loop :: "pystr \<Rightarrow> entry list \<Rightarrow> pystr" where
  "formatIndex_loop index [] = index"
| "formatIndex_loop index (i # rest) = formatIndex_loop (index @ item i) rest"

definition formatIndex :: "entry list \<Rightarrow> pystr" where
  "formatIndex d = formatIndex_loop [] d"

subsection \<open>The layout parameters\<close>













subsection \<open>Vocabulary of the properties\<close>

text \<open>
  The condition under which \<open>read_line\<close> takes its first branch with the trimmed third
  field \<open>k\<close>: a line carrying the explicit sort key \<open>k\<close>.
\<close>

definition explicit_key_line :: "pystr \<Rightarrow> pystr \<Rightarrow> bool" where
  "explicit_key_line k entry \<longleftrightarrow>
     entry \<noteq> [] \<and> hd entry \<noteq> HASH \<and> entry \<noteq> [NL] \<and>
     length (split_on TAB entry) = 3 \<and> strip (split_on TAB entry ! 2) \<noteq> [] \<and>
     strip (split_on TAB entry ! 2) = k"

text \<open>
  What the parser keeps true of its state: both fields of every entry are trimmed; a
  recorded sort key is trimmed and non-empty, and the display term recorded for it is
  trimmed.
\<close>

definition trimmed_state :: "parse_state \<Rightarrow> bool" where
  "trimmed_state st \<longleftrightarrow>
     (\<forall>(a, b)\<in>set (data st). strip a = a \<and> strip b = b) \<and>
     (\<forall>k d. map_of (sortDict st) k = Some d \<longrightarrow> k \<noteq> [] \<and> strip k = k \<and> strip d = d)"


section \<open>Properties\<close>

subsection \<open>Strings and lines\<close>

lemma all_dropWhile: "(\<forall>x\<in>set (dropWhile P s). P x) \<longleftrightarrow> (\<forall>x\<in>set s. P x)"
  by (induction s) auto

lemma strip_empty_iff: "strip s = [] \<longleftrightarrow> (\<forall>c\<in>set s. is_space c)"
  by (simp add: strip_def dropWhile_eq_Nil_conv all_dropWhile)

lemma last_dropWhile: "dropWhile P xs \<noteq> [] \<Longrightarrow> last (dropWhile P xs) = last xs"
  by (induction xs) auto

lemma strip_ends:
  assumes "strip s \<noteq> []"
  shows "\<not> is_space (hd (strip s))" and "\<not> is_space (last (strip s))"
proof -
  let ?u = "dropWhile is_space s"
  let ?v = "dropWhile is_space (rev ?u)"
  from assms have v: "?v \<noteq> []" by (simp add: strip_def)
  have u: "?u \<noteq> []"
  proof
    assume empty: "?u = []"
    have "?v = []" unfolding empty by simp
    with v show False by contradiction
  qed
  have "hd (strip s) = last ?v" using v by (simp add: strip_def hd_rev)
  also have "\<dots> = last (rev ?u)" using v by (rule last_dropWhile)
  also have "\<dots> = hd ?u" using u by (simp add: last_rev)
  finally show "\<not> is_space (hd (strip s))" using u hd_dropWhile [of is_space s] by simp
  have "last (strip s) = hd ?v" using v by (simp add: strip_def last_rev)
  then show "\<not> is_space (last (strip s))" using v hd_dropWhile [of is_space "rev ?u"] by simp
qed

lemma dropWhile_id: "xs \<noteq> [] \<Longrightarrow> \<not> P (hd xs) \<Longrightarrow> dropWhile P xs = xs"
  by (cases xs) auto

lemma strip_idem: "strip (strip s) = strip s"
proof (cases "strip s = []")
  case True
  have "strip [] = []" by (simp add: strip_def)
  with True show ?thesis by simp
next
  case False
  let ?t = "strip s"
  have 1: "dropWhile is_space ?t = ?t"
    using False strip_ends(1) [OF False] by (rule dropWhile_id)
  have 2: "dropWhile is_space (rev ?t) = rev ?t"
    using False strip_ends(2) [OF False] by (intro dropWhile_id) (simp_all add: hd_rev)
  have "strip ?t = rev (dropWhile is_space (rev (dropWhile is_space ?t)))"
    by (simp only: strip_def)
  then show ?thesis by (simp only: 1 2 rev_rev_ident)
qed

lemma split_on_not_Nil: "split_on sep s \<noteq> []"
  by (induction s) (auto split: list.splits)

lemma length_split_on: "length (split_on sep s) = Suc (length (filter (\<lambda>c. c = sep) s))"
  by (induction s) (auto split: list.splits simp: split_on_not_Nil)

lemma concat_file_lines: "concat (file_lines s) = s"
  by (induction s) (auto split: list.splits)

lemma file_lines_nonempty: "[] \<notin> set (file_lines s)"
  by (induction s) (auto split: list.splits)

lemma read_line_total: "entry \<noteq> [] \<Longrightarrow> \<exists>st'. read_line st entry = Inr st'"
  by (simp add: read_line_def Let_def)

lemma read_lines_append:
  "read_lines st (xs @ ys) =
     (case read_lines st xs of Inl e \<Rightarrow> Inl e | Inr st' \<Rightarrow> read_lines st' ys)"
  by (induction xs arbitrary: st) (auto split: sum.splits)

lemma read_lines_total: "[] \<notin> set ls \<Longrightarrow> \<exists>st'. read_lines st ls = Inr st'"
proof (induction ls arbitrary: st)
  case Nil
  then show ?case by simp
next
  case (Cons l ls)
  then obtain st1 where "read_line st l = Inr st1"
    using read_line_total [of l st] by auto
  with Cons show ?case by simp
qed

lemma readContent_total: "\<exists>r. readContent lower content = Inr r"
  using read_lines_total [OF file_lines_nonempty, of init_state content]
  by (auto simp: readContent_def read_entries_def)

text \<open>The facts that evaluate the parser on a given text.\<close>

lemmas parse_eval = str_def strip_def is_space_def init_state_def

subsection \<open>Classification of a line\<close>

text \<open>
  C1: a line that is not skipped and splits into exactly three fields whose third field
  is non-empty after trimming records the side mapping from the trimmed third field to the
  trimmed first field and appends the provisional entry (trimmed third field, trimmed
  second field); a line of three fields with an empty trimmed third field, or of two
  fields, appends the normal entry (trimmed first field, trimmed second field) and leaves
  the side mapping alone. A third field of whitespace only is empty after trimming, so
  such a line is a normal entry.
\<close>

theorem read_line_classification:
  assumes "entry \<noteq> []" and "hd entry \<noteq> HASH" and "entry \<noteq> [NL]"
    and "fs = split_on TAB entry"
  shows "(length fs = 3 \<and> strip (fs ! 2) \<noteq> [] \<longrightarrow>
            read_line st entry =
              Inr (st\<lparr>sortDict := AList.update (strip (fs ! 2)) (strip (fs ! 0)) (sortDict st),
                      data := data st @ [(strip (fs ! 2), strip (fs ! 1))]\<rparr>)
            \<and> map_of (AList.update (strip (fs ! 2)) (strip (fs ! 0)) (sortDict st))
                 (strip (fs ! 2)) = Some (strip (fs ! 0)))
       \<and> ((length fs = 3 \<and> strip (fs ! 2) = []) \<or> length fs = 2 \<longrightarrow>
            read_line st entry =
              Inr (st\<lparr>data := data st @ [(strip (fs ! 0), strip (fs ! 1))]\<rparr>))
       \<and> (length fs = 3 \<and> (\<forall>c\<in>set (fs ! 2). is_space c) \<longrightarrow>
            read_line st entry =
              Inr (st\<lparr>data := data st @ [(strip (fs ! 0), strip (fs ! 1))]\<rparr>))"
  using assms by (auto simp: read_line_def Let_def update_conv' strip_empty_iff)

theorem read_line_classification_witness:
  "read_line init_state (str ''Dr. Smith'' @ TAB # str ''3'' @ TAB # str ''Smith'' @ [NL]) =
     Inr \<lparr>data = [(str ''Smith'', str ''3'')], errors = [],
          sortDict = [(str ''Smith'', str ''Dr. Smith'')]\<rparr>
   \<and> read_line init_state (str ''Smith, John'' @ TAB # str ''12, 45'' @ [NL]) =
     Inr \<lparr>data = [(str ''Smith, John'', str ''12, 45'')], errors = [], sortDict = []\<rparr>
   \<and> read_line init_state (str ''Jones'' @ TAB # str ''7'' @ TAB # str '' '' @ [NL]) =
     Inr \<lparr>data = [(str ''Jones'', str ''7'')], errors = [], sortDict = []\<rparr>
   \<and> read_line init_state (str ''a'' @ TAB # str ''b'' @ TAB # [160, NL]) =
     Inr \<lparr>data = [(str ''a'', str ''b'')], errors = [], sortDict = []\<rparr>"
proof -
  let ?a = "str ''Dr. Smith'' @ TAB # str ''3'' @ TAB # str ''Smith'' @ [NL]"
  let ?b = "str ''Smith, John'' @ TAB # str ''12, 45'' @ [NL]"
  let ?c = "str ''Jones'' @ TAB # str ''7'' @ TAB # str '' '' @ [NL]"
  let ?d = "str ''a'' @ TAB # str ''b'' @ TAB # [160, NL]"
  have a: "read_line init_state ?a =
     Inr \<lparr>data = [(str ''Smith'', str ''3'')], errors = [],
          sortDict = [(str ''Smith'', str ''Dr. Smith'')]\<rparr>"
    using read_line_classification [of ?a "split_on TAB ?a" init_state]
    by (simp add: parse_eval)
  have b: "read_line init_state ?b =
     Inr \<lparr>data = [(str ''Smith, John'', str ''12, 45'')], errors = [], sortDict = []\<rparr>"
    using read_line_classification [of ?b "split_on TAB ?b" init_state]
    by (simp add: parse_eval)
  have c: "read_line init_state ?c =
     Inr \<lparr>data = [(str ''Jones'', str ''7'')], errors = [], sortDict = []\<rparr>"
    using read_line_classification [of ?c "split_on TAB ?c" init_state]
    by (simp add: parse_eval)
  have d: "read_line init_state ?d =
     Inr \<lparr>data = [(str ''a'', str ''b'')], errors = [], sortDict = []\<rparr>"
    using read_line_classification [of ?d "split_on TAB ?d" init_state]
    by (simp add: parse_eval)
  from a b c d show ?thesis by blast
qed

subsection \<open>The formatter\<close>

lemma formatIndex_loop_append:
  "formatIndex_loop index d = index @ concat (map item d)"
  by (induction d arbitrary: index) simp_all

text \<open>
  C8: the formatter emits one directive per entry, in order, with nothing between or
  after them; a directive is the item marker \<^verbatim>\<open>\item ~\<close>, the display term, a comma, a
  space and the page reference, both passed through unchanged. No entries give the
  empty string.
\<close>

theorem formatIndex_directives:
  "formatIndex d =
     concat (map (\<lambda>i. str (CHR 0x5C # ''item ~'') @ fst i @ str '', '' @ snd i) d)
   \<and> formatIndex [] = []
   \<and> formatIndex (d @ [(term, page)]) =
       formatIndex d @ str (CHR 0x5C # ''item ~'') @ term @ str '', '' @ page"
proof -
  have directive:
    "map item xs = map (\<lambda>i. str (CHR 0x5C # ''item ~'') @ fst i @ str '', '' @ snd i) xs"
    for xs by (simp add: item_def)
  show ?thesis
    by (simp add: formatIndex_def formatIndex_loop_append directive item_def)
qed

subsection \<open>Comments and blank lines\<close>

text \<open>
  C5, as stated, at a line whose first character after trimming is \<^verbatim>\<open>#\<close>: the test of
  the source is on the first character of the untrimmed line, so the line is not skipped;
  it splits into one field and is a rejected line.
\<close>

theorem comment_not_skipped_after_trimming:
  "hd (strip (str '' # a note'' @ [NL])) = HASH
   \<and> read_line init_state (str '' # a note'' @ [NL]) =
       Inr \<lparr>data = [], errors = [[str '' # a note'' @ [NL]]], sortDict = []\<rparr>
   \<and> (\<forall>lower. readContent lower (str '' # a note'' @ [NL]) =
         Inr ([], [[str '' # a note'' @ [NL]]]))"
  by (simp add: parse_eval read_line_def readContent_def read_entries_def sort_data_def)

text \<open>
  C5, amended: a line whose first character is \<^verbatim>\<open>#\<close> (nothing is trimmed first), or
  that is exactly a lone newline, is skipped: the parser state is unchanged, so there is
  neither an entry nor a rejected line, and the run goes on as if the line were not there.
\<close>

theorem read_line_skips:
  assumes "entry = HASH # rest \<or> entry = [NL]"
  shows "read_line st entry = Inr st
       \<and> read_lines st (before @ entry # after) = read_lines st (before @ after)"
proof -
  from assms have skip: "read_line s entry = Inr s" for s
    by (auto simp: read_line_def)
  then show ?thesis
    by (simp add: read_lines_append split: sum.splits)
qed

theorem read_line_skips_witness:
  "read_line init_state (str ''# a note'' @ [NL]) = Inr init_state
   \<and> read_line init_state [NL] = Inr init_state
   \<and> read_lines init_state
        [str ''a'' @ TAB # str ''1'' @ [NL], [NL], str ''b'' @ TAB # str ''2'' @ [NL]] =
       read_lines init_state [str ''a'' @ TAB # str ''1'' @ [NL], str ''b'' @ TAB # str ''2'' @ [NL]]"
proof -
  have comment: "str ''# a note'' @ [NL] = HASH # str '' a note'' @ [NL]"
    by (simp add: str_def)
  from read_line_skips [of "str ''# a note'' @ [NL]" "str '' a note'' @ [NL]" init_state "[]" "[]"]
    read_line_skips [of "[NL]" "[]" init_state "[str ''a'' @ TAB # str ''1'' @ [NL]]"
      "[str ''b'' @ TAB # str ''2'' @ [NL]]"] comment
  show ?thesis by simp
qed

subsection \<open>The fields of a retained entry\<close>

text \<open>
  C4, as stated, at a line with an empty first field and at a line with an empty second
  field: both are retained as entries.
\<close>

theorem empty_fields_retained:
  "read_lines init_state (file_lines (TAB # str ''12'' @ [NL])) =
     Inr \<lparr>data = [([], str ''12'')], errors = [], sortDict = []\<rparr>
   \<and> read_lines init_state (file_lines (str ''Smith'' @ TAB # [NL])) =
     Inr \<lparr>data = [(str ''Smith'', [])], errors = [], sortDict = []\<rparr>
   \<and> (\<forall>lower. readContent lower (TAB # str ''12'' @ [NL]) = Inr ([([], str ''12'')], []))
   \<and> (\<forall>lower. readContent lower (str ''Smith'' @ TAB # [NL]) = Inr ([(str ''Smith'', [])], []))"
  by (simp add: parse_eval read_line_def readContent_def read_entries_def sort_data_def
      substitute_def)

lemma read_line_trimmed:
  assumes "trimmed_state st" and "read_line st entry = Inr st'"
  shows "trimmed_state st'"
proof -
  let ?fs = "split_on TAB entry"
  consider (skip) "st' = st"
    | (key) "strip (?fs ! 2) \<noteq> []"
        "st' = st\<lparr>sortDict := AList.update (strip (?fs ! 2)) (strip (?fs ! 0)) (sortDict st),
                  data := data st @ [(strip (?fs ! 2), strip (?fs ! 1))]\<rparr>"
    | (normal) "st' = st\<lparr>data := data st @ [(strip (?fs ! 0), strip (?fs ! 1))]\<rparr>"
    | (invalid) "st' = st\<lparr>errors := errors st @ [?fs]\<rparr>"
    using assms(2) by (auto simp: read_line_def Let_def split: if_splits)
  then show ?thesis
  proof cases
    case skip
    with assms(1) show ?thesis by simp
  next
    case key
    with assms(1) show ?thesis
      by (simp add: trimmed_state_def strip_idem update_conv')
  next
    case normal
    with assms(1) show ?thesis
      by (simp add: trimmed_state_def strip_idem)
  next
    case invalid
    with assms(1) show ?thesis
      by (simp add: trimmed_state_def)
  qed
qed

lemma read_lines_trimmed:
  "trimmed_state st \<Longrightarrow> read_lines st ls = Inr st' \<Longrightarrow> trimmed_state st'"
proof (induction ls arbitrary: st)
  case Nil
  then show ?case by simp
next
  case (Cons l ls)
  then show ?case
    by (auto split: sum.splits dest: read_line_trimmed)
qed

lemma substitute_trimmed:
  assumes "trimmed_state st" and "strip (fst i) = fst i" and "strip (snd i) = snd i"
  shows "strip (fst (substitute (sortDict st) i)) = fst (substitute (sortDict st) i)
       \<and> strip (snd (substitute (sortDict st) i)) = snd (substitute (sortDict st) i)"
  using assms by (auto simp: substitute_def trimmed_state_def split: option.splits)

text \<open>
  C4, amended: in every entry retained by the parser the display term and the page
  reference are trimmed of surrounding whitespace (either may be empty: the parser does
  not look at them), in the parsed list and in the returned one; and a sort key that is
  present is non-empty after trimming.
\<close>

theorem retained_entries_trimmed:
  assumes "read_lines init_state ls = Inr st"
  shows "(\<forall>(a, b)\<in>set (data st). strip a = a \<and> strip b = b)
       \<and> (\<forall>k d. map_of (sortDict st) k = Some d \<longrightarrow> k \<noteq> [] \<and> strip k = k \<and> strip d = d)
       \<and> (\<forall>(t, p)\<in>set (map (substitute (sortDict st)) (sort_data lower (data st))).
            strip t = t \<and> strip p = p)"
proof -
  have "trimmed_state init_state"
    by (simp add: trimmed_state_def init_state_def)
  then have inv: "trimmed_state st"
    using assms by (rule read_lines_trimmed)
  have "strip t = t \<and> strip p = p"
    if "(t, p) \<in> set (map (substitute (sortDict st)) (sort_data lower (data st)))" for t p
  proof -
    from that obtain i where i: "i \<in> set (data st)" and tp: "substitute (sortDict st) i = (t, p)"
      by (auto simp: sort_data_def)
    from inv i have "strip (fst i) = fst i" and "strip (snd i) = snd i"
      by (auto simp: trimmed_state_def)
    with inv have "strip (fst (substitute (sortDict st) i)) = fst (substitute (sortDict st) i)
      \<and> strip (snd (substitute (sortDict st) i)) = snd (substitute (sortDict st) i)"
      by (rule substitute_trimmed)
    with tp show ?thesis by simp
  qed
  then have "\<forall>(t, p)\<in>set (map (substitute (sortDict st)) (sort_data lower (data st))).
            strip t = t \<and> strip p = p"
    by blast
  with inv show ?thesis by (simp add: trimmed_state_def)
qed

theorem retained_entries_trimmed_witness:
  "read_lines init_state
      [str '' Dr. Smith '' @ TAB # str ''3 '' @ TAB # str ''Smith'' @ [NL],
       TAB # str ''12'' @ [NL],
       str ''a'' @ 160 # TAB # str ''1'' @ [NL]] =
     Inr \<lparr>data = [(str ''Smith'', str ''3''), ([], str ''12''), (str ''a'', str ''1'')],
          errors = [], sortDict = [(str ''Smith'', str ''Dr. Smith'')]\<rparr>
   \<and> strip (str ''Smith'') = str ''Smith'' \<and> strip (str ''3'') = str ''3''
   \<and> strip (str ''a'') = str ''a'' \<and> strip (str ''Dr. Smith'') = str ''Dr. Smith''"
proof -
  let ?ls = "[str '' Dr. Smith '' @ TAB # str ''3 '' @ TAB # str ''Smith'' @ [NL],
       TAB # str ''12'' @ [NL],
       str ''a'' @ 160 # TAB # str ''1'' @ [NL]]"
  let ?st = "\<lparr>data = [(str ''Smith'', str ''3''), ([], str ''12''), (str ''a'', str ''1'')],
          errors = [], sortDict = [(str ''Smith'', str ''Dr. Smith'')]\<rparr>"
  have run: "read_lines init_state ?ls = Inr ?st"
    by (simp add: parse_eval read_line_def)
  from retained_entries_trimmed [OF run, of id] have
    "(\<forall>(a, b)\<in>set (data ?st). strip a = a \<and> strip b = b)"
    and "map_of (sortDict ?st) (str ''Smith'') = Some (str ''Dr. Smith'')
      \<longrightarrow> strip (str ''Dr. Smith'') = str ''Dr. Smith''"
    by blast+
  with run show ?thesis
    by simp
qed

subsection \<open>Rejected lines\<close>

text \<open>
  A line changes \<open>data\<close> and \<open>sortDict\<close> the same way whatever \<open>errors\<close> holds.
\<close>

lemma read_line_errors_frame:
  assumes "data s = data t" and "sortDict s = sortDict t" and "read_line s l = Inr s'"
  shows "\<exists>t'. read_line t l = Inr t' \<and> data s' = data t' \<and> sortDict s' = sortDict t'"
  using assms by (auto simp: read_line_def Let_def split: if_splits)

lemma read_lines_errors_frame:
  assumes "data s = data t" and "sortDict s = sortDict t" and "read_lines s ls = Inr s'"
  shows "\<exists>t'. read_lines t ls = Inr t' \<and> data s' = data t' \<and> sortDict s' = sortDict t'"
  using assms
proof (induction ls arbitrary: s t)
  case Nil
  then show ?case by simp
next
  case (Cons l ls)
  from Cons.prems(3) obtain s1 where s1: "read_line s l = Inr s1" "read_lines s1 ls = Inr s'"
    by (auto split: sum.splits)
  from read_line_errors_frame [OF Cons.prems(1,2) s1(1)]
  obtain t1 where t1: "read_line t l = Inr t1" "data s1 = data t1" "sortDict s1 = sortDict t1"
    by blast
  from Cons.IH [OF t1(2,3) s1(2)] t1(1) show ?case by simp
qed

text \<open>
  C7: a line that is not skipped is rejected exactly when splitting it on the tab yields a
  field count that is neither 2 nor 3; a line of three fields always has one of the two
  shapes of an entry. The split fields of a rejected line are appended to \<open>errors\<close> and
  nothing else changes, so the line is in no entry; the entries returned for the lines
  before and after it are those returned without it; and the parse, the sort and the
  substitution raise on no file.
\<close>

theorem rejected_lines:
  assumes "entry \<noteq> []" and "hd entry \<noteq> HASH" and "entry \<noteq> [NL]"
    and "[] \<notin> set before" and "[] \<notin> set after"
  shows "(length (split_on TAB entry) \<noteq> 2 \<and> length (split_on TAB entry) \<noteq> 3 \<longrightarrow>
            read_line st entry = Inr (st\<lparr>errors := errors st @ [split_on TAB entry]\<rparr>)
            \<and> (\<exists>d e e'. read_entries lower (before @ entry # after) = Inr (d, e)
                       \<and> read_entries lower (before @ after) = Inr (d, e')))
       \<and> (length (split_on TAB entry) = 2 \<or> length (split_on TAB entry) = 3 \<longrightarrow>
            (\<exists>st'. read_line st entry = Inr st' \<and> errors st' = errors st
                  \<and> length (data st') = Suc (length (data st))))
       \<and> (\<exists>r. readContent lower content = Inr r)"
proof (intro conjI impI)
  assume n: "length (split_on TAB entry) \<noteq> 2 \<and> length (split_on TAB entry) \<noteq> 3"
  with assms(1-3) have rej: "read_line s entry = Inr (s\<lparr>errors := errors s @ [split_on TAB entry]\<rparr>)" for s
    by (simp add: read_line_def Let_def)
  then show "read_line st entry = Inr (st\<lparr>errors := errors st @ [split_on TAB entry]\<rparr>)" .
  from read_lines_total [OF assms(4)] obtain s1 where s1: "read_lines init_state before = Inr s1"
    by blast
  from read_lines_total [OF assms(5)] obtain s2 where s2: "read_lines s1 after = Inr s2"
    by blast
  let ?s1' = "s1\<lparr>errors := errors s1 @ [split_on TAB entry]\<rparr>"
  have "data s1 = data ?s1'" and "sortDict s1 = sortDict ?s1'" by simp_all
  from read_lines_errors_frame [OF this s2]
  obtain t2 where t2: "read_lines ?s1' after = Inr t2" "data s2 = data t2" "sortDict s2 = sortDict t2"
    by blast
  have with_line: "read_lines init_state (before @ entry # after) = Inr t2"
    by (simp add: read_lines_append s1 rej t2(1))
  have without: "read_lines init_state (before @ after) = Inr s2"
    by (simp add: read_lines_append s1 s2)
  show "\<exists>d e e'. read_entries lower (before @ entry # after) = Inr (d, e)
                \<and> read_entries lower (before @ after) = Inr (d, e')"
    by (simp add: read_entries_def with_line without t2(2,3))
next
  assume "length (split_on TAB entry) = 2 \<or> length (split_on TAB entry) = 3"
  with assms(1-3) show "\<exists>st'. read_line st entry = Inr st' \<and> errors st' = errors st
                  \<and> length (data st') = Suc (length (data st))"
    by (auto simp: read_line_def Let_def)
next
  show "\<exists>r. readContent lower content = Inr r" by (rule readContent_total)
qed

theorem rejected_lines_witness:
  "\<forall>lower.
     read_line init_state (str ''A'' @ TAB # str ''B'' @ TAB # str ''C'' @ TAB # str ''D'' @ [NL]) =
       Inr \<lparr>data = [], errors = [[str ''A'', str ''B'', str ''C'', str ''D'' @ [NL]]],
            sortDict = []\<rparr>
   \<and> (\<exists>d e e'.
        read_entries lower [str ''Smith, John'' @ TAB # str ''12, 45'' @ [NL],
                      str ''A'' @ TAB # str ''B'' @ TAB # str ''C'' @ TAB # str ''D'' @ [NL],
                      str ''apple'' @ TAB # str ''1'' @ [NL]] = Inr (d, e)
        \<and> read_entries lower [str ''Smith, John'' @ TAB # str ''12, 45'' @ [NL],
                        str ''apple'' @ TAB # str ''1'' @ [NL]] = Inr (d, e'))
   \<and> (\<exists>st'. read_line init_state (str ''apple'' @ TAB # str ''1'' @ [NL]) = Inr st'
            \<and> errors st' = [] \<and> length (data st') = 1)
   \<and> (\<exists>st'. read_line init_state (str ''a'' @ TAB # str ''b'' @ TAB # str ''c'' @ [NL]) = Inr st'
            \<and> errors st' = [] \<and> length (data st') = 1)
   \<and> (\<exists>r. readContent lower (str ''A'' @ TAB # str ''B'' @ TAB # str ''C'' @ TAB # str ''D'' @ [NL]) =
            Inr r)"
proof
  fix lower
  show "read_line init_state (str ''A'' @ TAB # str ''B'' @ TAB # str ''C'' @ TAB # str ''D'' @ [NL]) =
       Inr \<lparr>data = [], errors = [[str ''A'', str ''B'', str ''C'', str ''D'' @ [NL]]],
            sortDict = []\<rparr>
   \<and> (\<exists>d e e'.
        read_entries lower [str ''Smith, John'' @ TAB # str ''12, 45'' @ [NL],
                      str ''A'' @ TAB # str ''B'' @ TAB # str ''C'' @ TAB # str ''D'' @ [NL],
                      str ''apple'' @ TAB # str ''1'' @ [NL]] = Inr (d, e)
        \<and> read_entries lower [str ''Smith, John'' @ TAB # str ''12, 45'' @ [NL],
                        str ''apple'' @ TAB # str ''1'' @ [NL]] = Inr (d, e'))
   \<and> (\<exists>st'. read_line init_state (str ''apple'' @ TAB # str ''1'' @ [NL]) = Inr st'
            \<and> errors st' = [] \<and> length (data st') = 1)
   \<and> (\<exists>st'. read_line init_state (str ''a'' @ TAB # str ''b'' @ TAB # str ''c'' @ [NL]) = Inr st'
            \<and> errors st' = [] \<and> length (data st') = 1)
   \<and> (\<exists>r. readContent lower (str ''A'' @ TAB # str ''B'' @ TAB # str ''C'' @ TAB # str ''D'' @ [NL]) =
            Inr r)"
    using
      rejected_lines [of "str ''A'' @ TAB # str ''B'' @ TAB # str ''C'' @ TAB # str ''D'' @ [NL]"
        "[str ''Smith, John'' @ TAB # str ''12, 45'' @ [NL]]" "[str ''apple'' @ TAB # str ''1'' @ [NL]]"
        init_state lower "str ''A'' @ TAB # str ''B'' @ TAB # str ''C'' @ TAB # str ''D'' @ [NL]"]
      rejected_lines [of "str ''apple'' @ TAB # str ''1'' @ [NL]" "[]" "[]" init_state lower "[]"]
      rejected_lines [of "str ''a'' @ TAB # str ''b'' @ TAB # str ''c'' @ [NL]" "[]" "[]"
        init_state lower "[]"]
    by (simp add: str_def init_state_def)
qed

subsection \<open>The sort\<close>

lemma length_sort_data: "length (sort_data lower d) = length d"
  by (simp add: sort_data_def)

lemma set_sort_data: "set (sort_data lower d) = set d"
  by (simp add: sort_data_def)

text \<open>
  C2: after parsing, \<open>readContent\<close> sorts the parsed entries by their first field
  lowercased, and the sort is stable: in the sorted list an entry stands before another
  only if its lowercased key is less than or equal to the other's, the entries of any one
  lowercased key are in their input order, and the sorted list has the entries of the
  parsed one.
\<close>

theorem sort_data_stable:
  "(read_lines init_state ls = Inr st \<longrightarrow>
      read_entries lower ls =
        Inr (map (substitute (sortDict st)) (sort_data lower (data st)), errors st))
   \<and> sorted (map (\<lambda>x. lower (fst x)) (sort_data lower d))
   \<and> (\<forall>i j. i < j \<longrightarrow> j < length (sort_data lower d) \<longrightarrow>
          lower (fst (sort_data lower d ! i)) \<le> lower (fst (sort_data lower d ! j)))
   \<and> (\<forall>k. filter (\<lambda>x. lower (fst x) = k) (sort_data lower d) =
            filter (\<lambda>x. lower (fst x) = k) d)
   \<and> length (sort_data lower d) = length d \<and> set (sort_data lower d) = set d"
proof -
  have sorted: "sorted (map (\<lambda>x. lower (fst x)) (sort_data lower d))"
    by (simp add: sort_data_def)
  have "lower (fst (sort_data lower d ! i)) \<le> lower (fst (sort_data lower d ! j))"
    if "i < j" and "j < length (sort_data lower d)" for i j
    using sorted_nth_mono [OF sorted, of i j] that by simp
  moreover have "filter (\<lambda>x. lower (fst x) = k) (sort_data lower d) =
      filter (\<lambda>x. lower (fst x) = k) d"
    for k by (simp add: sort_data_def sort_key_stable)
  ultimately show ?thesis
    using sorted by (simp add: read_entries_def length_sort_data set_sort_data)
qed

theorem sort_data_stable_witness:
  "\<forall>lower.
     read_entries lower [str ''apple'' @ TAB # str ''1'' @ [NL], str ''apple'' @ TAB # str ''2'' @ [NL]] =
       Inr ([(str ''apple'', str ''1''), (str ''apple'', str ''2'')], [])
   \<and> filter (\<lambda>x. lower (fst x) = lower (str ''apple''))
        (sort_data lower [(str ''apple'', str ''1''), (str ''apple'', str ''2'')]) =
      [(str ''apple'', str ''1''), (str ''apple'', str ''2'')]
   \<and> lower (fst (sort_data lower [(str ''apple'', str ''1''), (str ''apple'', str ''2'')] ! 0))
       \<le> lower (fst (sort_data lower [(str ''apple'', str ''1''), (str ''apple'', str ''2'')] ! 1))"
proof
  fix lower :: "pystr \<Rightarrow> pystr"
  let ?ls = "[str ''apple'' @ TAB # str ''1'' @ [NL], str ''apple'' @ TAB # str ''2'' @ [NL]]"
  let ?d = "[(str ''apple'', str ''1''), (str ''apple'', str ''2'')]"
  let ?st = "\<lparr>data = ?d, errors = [], sortDict = []\<rparr>"
  have run: "read_lines init_state ?ls = Inr ?st"
    by (simp add: parse_eval read_line_def)
  have sorted_d: "sort_data lower ?d = ?d"
    by (simp add: sort_data_def)
  note inst = sort_data_stable [of ?ls ?st lower ?d]
  from inst have "filter (\<lambda>x. lower (fst x) = lower (str ''apple'')) (sort_data lower ?d) =
      filter (\<lambda>x. lower (fst x) = lower (str ''apple'')) ?d"
    by (elim conjE allE)
  then have 2: "filter (\<lambda>x. lower (fst x) = lower (str ''apple'')) (sort_data lower ?d) = ?d"
    by simp
  from inst run have "read_entries lower ?ls =
      Inr (map (substitute (sortDict ?st)) (sort_data lower (data ?st)), errors ?st)"
    by (elim conjE impE)
  then have 1: "read_entries lower ?ls = Inr (?d, [])"
    by (simp add: sorted_d substitute_def)
  from inst have "(0::nat) < 1 \<longrightarrow> 1 < length (sort_data lower ?d) \<longrightarrow>
      lower (fst (sort_data lower ?d ! 0)) \<le> lower (fst (sort_data lower ?d ! 1))"
    by (elim conjE allE)
  then have 3: "lower (fst (sort_data lower ?d ! 0)) \<le> lower (fst (sort_data lower ?d ! 1))"
    by (simp add: sorted_d)
  from 1 2 3 show "read_entries lower ?ls = Inr (?d, [])
   \<and> filter (\<lambda>x. lower (fst x) = lower (str ''apple'')) (sort_data lower ?d) = ?d
   \<and> lower (fst (sort_data lower ?d ! 0)) \<le> lower (fst (sort_data lower ?d ! 1))"
    by (intro conjI)
qed

subsection \<open>The substitution of display terms\<close>

text \<open>
  C3, at two lines that carry the same explicit sort key: the entry of the first line is
  returned with the display term of the second line, not with its own
  (\<^verbatim>\<open>Dr. Smith\<close>).
\<close>

theorem shared_sort_key_display:
  "readContent lower (str ''Dr. Smith'' @ TAB # str ''3'' @ TAB # str ''Smith'' @ NL #
                      str ''Mr. Smith'' @ TAB # str ''4'' @ TAB # str ''Smith'' @ [NL]) =
     Inr ([(str ''Mr. Smith'', str ''3''), (str ''Mr. Smith'', str ''4'')], [])"
proof -
  have run: "read_lines init_state
      (file_lines (str ''Dr. Smith'' @ TAB # str ''3'' @ TAB # str ''Smith'' @ NL #
                   str ''Mr. Smith'' @ TAB # str ''4'' @ TAB # str ''Smith'' @ [NL])) =
     Inr \<lparr>data = [(str ''Smith'', str ''3''), (str ''Smith'', str ''4'')], errors = [],
          sortDict = [(str ''Smith'', str ''Mr. Smith'')]\<rparr>"
    by (simp add: parse_eval read_line_def)
  show ?thesis
    unfolding readContent_def read_entries_def run
    by (simp add: sort_data_def substitute_def)
qed

text \<open>
  C6, at a line without a sort key whose display term is the sort key of another line: its
  first field is rewritten to the display term of that other line.
\<close>

theorem normal_entry_rewritten:
  "readContent lower (str ''Smith'' @ TAB # str ''1'' @ NL #
                      str ''Dr. Smith'' @ TAB # str ''3'' @ TAB # str ''Smith'' @ [NL]) =
     Inr ([(str ''Dr. Smith'', str ''1''), (str ''Dr. Smith'', str ''3'')], [])"
proof -
  have run: "read_lines init_state
      (file_lines (str ''Smith'' @ TAB # str ''1'' @ NL #
                   str ''Dr. Smith'' @ TAB # str ''3'' @ TAB # str ''Smith'' @ [NL])) =
     Inr \<lparr>data = [(str ''Smith'', str ''1''), (str ''Smith'', str ''3'')], errors = [],
          sortDict = [(str ''Smith'', str ''Dr. Smith'')]\<rparr>"
    by (simp add: parse_eval read_line_def)
  show ?thesis
    unfolding readContent_def read_entries_def run
    by (simp add: sort_data_def substitute_def)
qed

subsection \<open>Lines that share a sort key\<close>

lemma snd_substitute: "snd (substitute sd i) = snd i"
  by (simp add: substitute_def split: option.splits)

lemma substitute_key: "map_of sd k = Some d \<Longrightarrow> substitute sd (k, p) = (d, p)"
  by (simp add: substitute_def)

lemma substitute_no_key: "map_of sd (fst i) = None \<Longrightarrow> substitute sd i = i"
  by (simp add: substitute_def)

lemma page_references_unchanged:
  "map snd (map (substitute sd) (sort_data lower d)) = map snd (sort_data lower d)"
  by (simp add: snd_substitute)

lemma read_line_explicit:
  assumes "explicit_key_line k entry"
  shows "read_line st entry =
     Inr (st\<lparr>sortDict := AList.update k (strip (split_on TAB entry ! 0)) (sortDict st),
             data := data st @ [(k, strip (split_on TAB entry ! 1))]\<rparr>)"
  using assms by (auto simp: explicit_key_line_def read_line_def Let_def)

lemma read_line_other_key:
  assumes "\<not> explicit_key_line k entry" and "read_line st entry = Inr st'"
  shows "map_of (sortDict st') k = map_of (sortDict st) k"
  using assms
  by (auto simp: explicit_key_line_def read_line_def Let_def update_conv' split: if_splits)

lemma read_lines_other_key:
  assumes "\<forall>l\<in>set ls. \<not> explicit_key_line k l" and "read_lines st ls = Inr st'"
  shows "map_of (sortDict st') k = map_of (sortDict st) k"
  using assms
proof (induction ls arbitrary: st)
  case Nil
  then show ?case by simp
next
  case (Cons l ls)
  from Cons.prems(2) obtain s1 where s1: "read_line st l = Inr s1" "read_lines s1 ls = Inr st'"
    by (auto split: sum.splits)
  from Cons.prems(1) have "\<not> explicit_key_line k l" by simp
  then have "map_of (sortDict s1) k = map_of (sortDict st) k"
    using s1(1) by (rule read_line_other_key)
  moreover from Cons.prems(1) s1(2) have "map_of (sortDict st') k = map_of (sortDict s1) k"
    by (intro Cons.IH) simp_all
  ultimately show ?case by simp
qed

lemma read_line_data_mono: "read_line st entry = Inr st' \<Longrightarrow> set (data st) \<subseteq> set (data st')"
  by (auto simp: read_line_def Let_def split: if_splits)

lemma read_lines_data_mono: "read_lines st ls = Inr st' \<Longrightarrow> set (data st) \<subseteq> set (data st')"
proof (induction ls arbitrary: st)
  case Nil
  then show ?case by simp
next
  case (Cons l ls)
  from Cons.prems obtain s1 where s1: "read_line st l = Inr s1" "read_lines s1 ls = Inr st'"
    by (auto split: sum.splits)
  from read_line_data_mono [OF s1(1)] Cons.IH [OF s1(2)] show ?case by blast
qed

text \<open>
  C10: when two lines of the input carry the same trimmed sort key \<open>k\<close>, and no line
  after the second one carries it, the side mapping holds for \<open>k\<close> the display term of
  the second line only. Every entry of the sorted list whose first field is \<open>k\<close> is then
  returned with that display term: the entry of the first line, and any entry without a
  sort key whose display term reads \<open>k\<close>.
\<close>

theorem shared_sort_key_last_wins:
  assumes "[] \<notin> set ls1" and "[] \<notin> set ls2" and "[] \<notin> set ls3"
    and "explicit_key_line k l1" and "explicit_key_line k l2"
    and "\<forall>l\<in>set ls3. \<not> explicit_key_line k l"
    and "ls = ls1 @ l1 # ls2 @ l2 # ls3"
  shows "\<exists>st out errs.
           read_lines init_state ls = Inr st \<and> read_entries lower ls = Inr (out, errs)
         \<and> map_of (sortDict st) k = Some (strip (split_on TAB l2 ! 0))
         \<and> (k, strip (split_on TAB l1 ! 1)) \<in> set (data st)
         \<and> (strip (split_on TAB l2 ! 0), strip (split_on TAB l1 ! 1)) \<in> set out
         \<and> length out = length (data st)
         \<and> (\<forall>i<length out. fst (sort_data lower (data st) ! i) = k \<longrightarrow>
               out ! i = (strip (split_on TAB l2 ! 0), snd (sort_data lower (data st) ! i)))"
proof -
  let ?d2 = "strip (split_on TAB l2 ! 0)"
  let ?p1 = "strip (split_on TAB l1 ! 1)"
  from read_lines_total [OF assms(1)] obtain s1 where s1: "read_lines init_state ls1 = Inr s1"
    by blast
  let ?s1' = "s1\<lparr>sortDict := AList.update k (strip (split_on TAB l1 ! 0)) (sortDict s1),
                data := data s1 @ [(k, ?p1)]\<rparr>"
  have l1: "read_line s1 l1 = Inr ?s1'"
    using assms(4) by (rule read_line_explicit)
  from read_lines_total [OF assms(2)] obtain s2 where s2: "read_lines ?s1' ls2 = Inr s2"
    by blast
  let ?s2' = "s2\<lparr>sortDict := AList.update k ?d2 (sortDict s2),
                data := data s2 @ [(k, strip (split_on TAB l2 ! 1))]\<rparr>"
  have l2: "read_line s2 l2 = Inr ?s2'"
    using assms(5) by (rule read_line_explicit)
  from read_lines_total [OF assms(3)] obtain st where s3: "read_lines ?s2' ls3 = Inr st"
    by blast
  have run: "read_lines init_state ls = Inr st"
    by (simp only: assms(7) read_lines_append read_lines.simps sum.case s1 l1 s2 l2 s3)
  let ?out = "map (substitute (sortDict st)) (sort_data lower (data st))"
  have entries: "read_entries lower ls = Inr (?out, errors st)"
    by (simp add: read_entries_def run)
  have "map_of (sortDict st) k = map_of (sortDict ?s2') k"
    using assms(6) s3 by (rule read_lines_other_key)
  then have key: "map_of (sortDict st) k = Some ?d2"
    by (simp add: update_conv')
  have "(k, ?p1) \<in> set (data ?s1')" by simp
  with read_lines_data_mono [OF s2] have "(k, ?p1) \<in> set (data s2)" by blast
  then have "(k, ?p1) \<in> set (data ?s2')" by simp
  with read_lines_data_mono [OF s3] have earlier: "(k, ?p1) \<in> set (data st)" by blast
  then have "substitute (sortDict st) (k, ?p1) \<in> set ?out"
    by (simp add: sort_data_def)
  then have shown: "(?d2, ?p1) \<in> set ?out"
    by (simp only: substitute_key [OF key])
  have len: "length ?out = length (data st)"
    by (simp add: sort_data_def)
  have "?out ! i = (?d2, snd (sort_data lower (data st) ! i))"
    if "i < length ?out" and "fst (sort_data lower (data st) ! i) = k" for i
  proof -
    from that(2) have "sort_data lower (data st) ! i = (k, snd (sort_data lower (data st) ! i))"
      by (metis prod.collapse)
    then have "substitute (sortDict st) (sort_data lower (data st) ! i) =
        (?d2, snd (sort_data lower (data st) ! i))"
      using substitute_key [OF key] by metis
    with that(1) show ?thesis by simp
  qed
  with run entries key earlier shown len show ?thesis
    by blast
qed

theorem shared_sort_key_last_wins_witness:
  "\<forall>lower. \<exists>st out errs.
      read_lines init_state
        [str ''Smith'' @ TAB # str ''1'' @ [NL],
         str ''Dr. Smith'' @ TAB # str ''3'' @ TAB # str ''Smith'' @ [NL],
         str ''Mr. Smith'' @ 160 # TAB # str ''4'' @ TAB # str ''Smith'' @ [NL],
         str ''apple'' @ TAB # str ''5'' @ TAB # [160, NL]] = Inr st
    \<and> read_entries lower
        [str ''Smith'' @ TAB # str ''1'' @ [NL],
         str ''Dr. Smith'' @ TAB # str ''3'' @ TAB # str ''Smith'' @ [NL],
         str ''Mr. Smith'' @ 160 # TAB # str ''4'' @ TAB # str ''Smith'' @ [NL],
         str ''apple'' @ TAB # str ''5'' @ TAB # [160, NL]] = Inr (out, errs)
    \<and> map_of (sortDict st) (str ''Smith'') = Some (str ''Mr. Smith'')
    \<and> (str ''Smith'', str ''3'') \<in> set (data st)
    \<and> (str ''Mr. Smith'', str ''3'') \<in> set out"
proof
  fix lower :: "pystr \<Rightarrow> pystr"
  let ?a = "str ''Smith'' @ TAB # str ''1'' @ [NL]"
  let ?l1 = "str ''Dr. Smith'' @ TAB # str ''3'' @ TAB # str ''Smith'' @ [NL]"
  let ?l2 = "str ''Mr. Smith'' @ 160 # TAB # str ''4'' @ TAB # str ''Smith'' @ [NL]"
  let ?c = "str ''apple'' @ TAB # str ''5'' @ TAB # [160, NL]"
  have nonempty: "[] \<notin> set [?a]" "[] \<notin> set ([] :: pystr list)" "[] \<notin> set [?c]"
    by (simp_all add: str_def)
  have first: "explicit_key_line (str ''Smith'') ?l1"
    and second: "explicit_key_line (str ''Smith'') ?l2"
    by (simp_all add: explicit_key_line_def parse_eval)
  have later: "\<forall>l\<in>set [?c]. \<not> explicit_key_line (str ''Smith'') l"
    by (simp add: explicit_key_line_def parse_eval)
  have lines: "[?a, ?l1, ?l2, ?c] = [?a] @ ?l1 # [] @ ?l2 # [?c]"
    by simp
  have display: "strip (split_on TAB ?l2 ! 0) = str ''Mr. Smith''"
    and page: "strip (split_on TAB ?l1 ! 1) = str ''3''"
    by (simp_all add: parse_eval)
  from shared_sort_key_last_wins [OF nonempty first second later lines, of lower]
  show "\<exists>st out errs.
      read_lines init_state [?a, ?l1, ?l2, ?c] = Inr st
    \<and> read_entries lower [?a, ?l1, ?l2, ?c] = Inr (out, errs)
    \<and> map_of (sortDict st) (str ''Smith'') = Some (str ''Mr. Smith'')
    \<and> (str ''Smith'', str ''3'') \<in> set (data st)
    \<and> (str ''Mr. Smith'', str ''3'') \<in> set out"
    unfolding display page by blast
qed

subsection \<open>The layout parameters\<close>








end
